theory Spec2Isabelle
  imports Main
begin

text \<open>
  Two fragments of the repository are embedded: the command-line client
  (\<open>src/jack/clients/CommandLineClient.py\<close>, Python 2), with its background
  \<open>Receiver\<close>, its interactive \<open>CommandLineClient\<close> and \<open>main\<close>, and the URL table
  of the draft application (\<open>web/ffad/urls.py\<close>). The library calls the code makes
  (\<open>str.rstrip\<close>, iteration over a socket file, \<open>cmd.Cmd\<close>, \<open>int\<close>, \<open>re\<close>) are
  modelled as far as the code uses them. Definitions come first, properties after.
\<close>

section \<open>Strings as the client sees them\<close>

text \<open>
  The client is Python 2 code: a \<open>str\<close> is a sequence of bytes, modelled as
  \<^typ>\<open>string\<close>. The line terminator of the wire protocol is the byte 0x0A.
\<close>

abbreviation newline :: char where
  "newline \<equiv> CHR 0x0A"

text \<open>
  \<open>str.rstrip()\<close>, \<open>str.strip()\<close> without an argument remove the bytes for which C's
  \<open>isspace\<close> holds: space, tab, line feed, vertical tab, form feed, carriage return.
\<close>

definition isspace :: "char \<Rightarrow> bool" where
  "isspace c \<longleftrightarrow> c \<in> set [CHR 0x20, CHR 0x09, CHR 0x0A, CHR 0x0B, CHR 0x0C, CHR 0x0D]"

definition lstrip :: "string \<Rightarrow> string" where
  "lstrip s = dropWhile isspace s"

definition rstrip :: "string \<Rightarrow> string" where
  "rstrip s = rev (dropWhile isspace (rev s))"

definition strip :: "string \<Rightarrow> string" where
  "strip s = rstrip (lstrip s)"

section \<open>Receiver: the background reader\<close>

text \<open>
  \<^verbatim>\<open>
  def run(self):
      with contextlib.closing(self.sock.makefile()) as f:
          for message in f:
              print '\r>>>>', message.rstrip()
  \<close>
  \<open>sock.makefile()\<close> is a buffered file over the socket. Iterating it calls
  \<open>readline\<close> until that returns the empty string: \<open>readline\<close> returns the bytes up to
  and including the next line feed, or, when the stream ends first, whatever is left.
  The argument of the model is the byte stream the socket delivers until the peer closes;
  how \<open>recv\<close> cuts it into chunks does not change what \<open>readline\<close> returns.
\<close>

fun readline :: "string \<Rightarrow> string \<times> string" where
  "readline [] = ([], [])"
| "readline (c # cs) =
     (if c = newline then ([c], cs)
      else (case readline cs of (l, r) \<Rightarrow> (c # l, r)))"

text \<open>The messages the \<open>for\<close> loop binds, in order: the iterator of the file.\<close>

function file_iter :: "string \<Rightarrow> string list" where
  "file_iter s =
     (case readline s of
        (l, r) \<Rightarrow> if l = [] then [] else l # file_iter r)"
  by pat_completeness auto
termination
proof (relation "measure length")
  show "wf (measure length)" by simp
next
  fix s :: string and l r :: string
  assume rd: "(l, r) = readline s" and ne: "l \<noteq> []"
  have "length (fst (readline t)) + length (snd (readline t)) = length t" for t
    by (induction t) (auto split: prod.splits)
  from this [of s] rd [symmetric] ne have "length r < length s"
    by (cases l) auto
  then show "(r, s) \<in> measure length" by simp
qed

declare file_iter.simps [simp del]

text \<open>
  The Python 2 statement \<open>print a, b\<close> writes \<open>a\<close>, a space, \<open>b\<close> and a line feed
  (the first item here ends in \<open>>\<close>, so the space is always written).
\<close>

definition print_message :: "string \<Rightarrow> string" where
  "print_message m = CHR 0x0D # ''>>>> '' @ m @ [newline]"

text \<open>
  The body of the loop, the per-message handling: what one iteration writes to standard
  output for the message it is given.
\<close>

definition handle_message :: "string \<Rightarrow> string" where
  "handle_message message = print_message (rstrip message)"

text \<open>\<open>Receiver.run\<close>: the writes to standard output, one per iteration.\<close>

definition Receiver_run :: "string \<Rightarrow> string list" where
  "Receiver_run stream = map handle_message (file_iter stream)"

text \<open>The wire image of a list of lines: each followed by its line feed.\<close>

definition wire :: "string list \<Rightarrow> string" where
  "wire ls = concat (map (\<lambda>l. l @ [newline]) ls)"

section \<open>CommandLineClient: the interactive sender\<close>

text \<open>
  The exceptions the model distinguishes: \<open>ValueError\<close> of \<open>int\<close>, an error raised by
  a socket call, and the \<open>RuntimeError\<close> of a recursion that does not end.
\<close>

datatype py_error = ValueError | SocketError | RuntimeError

text \<open>
  The state of a \<open>CommandLineClient\<close>: the attribute \<open>lastcmd\<close> it inherits from
  \<open>cmd.Cmd\<close>, the buffers handed to \<open>sock.send\<close> so far, one per call, and the
  arguments of the calls of \<open>do_help\<close>, which writes to standard output only.
\<close>

record client =
  lastcmd :: string
  sent :: "string list"
  help_calls :: "string list"

definition new_client :: client where
  "new_client = \<lparr>lastcmd = [], sent = [], help_calls = []\<rparr>"

text \<open>
  \<^verbatim>\<open>
  def default(self, line):
      self.sock.send(line + '\n')
  \<close>
  One call of \<open>sock.send\<close> with the buffer \<open>line + '\n'\<close>. Whether the socket takes
  the call is the environment's choice: \<open>up k\<close> says that the call made after \<open>k\<close>
  earlier ones succeeds; otherwise it raises and the exception leaves \<open>default\<close>.
  The method has no \<open>return\<close>: its value is \<open>None\<close>, read as a false stop flag by
  \<open>cmdloop\<close>. The field \<open>sent\<close> records the buffer of each call; what the socket
  makes of it is \<open>socket_send\<close> below.
\<close>

definition CommandLineClient_default ::
  "(nat \<Rightarrow> bool) \<Rightarrow> client \<Rightarrow> string \<Rightarrow> py_error + bool \<times> client" where
  "CommandLineClient_default up st line =
     (if up (length (sent st))
      then Inr (False, st\<lparr>sent := sent st @ [line @ [newline]]\<rparr>)
      else Inl SocketError)"



text \<open>
  \<open>CommandLineClient\<close> overrides nothing else: reading and dispatching lines is
  \<open>cmd.Cmd\<close> of the standard library (\<open>Lib/cmd.py\<close>), embedded below method by method.
  \<^verbatim>\<open>
  identchars = string.ascii_letters + string.digits + '_'

  def parseline(self, line):
      line = line.strip()
      if not line:
          return None, None, line
      elif line[0] == '?':
          line = 'help ' + line[1:]
      elif line[0] == '!':
          if hasattr(self, 'do_shell'):
              line = 'shell ' + line[1:]
          else:
              return None, None, line
      i, n = 0, len(line)
      while i < n and line[i] in self.identchars: i = i+1
      cmd, arg = line[:i], line[i:].strip()
      return cmd, arg, line
  \<close>
  The client has no \<open>do_shell\<close>.
\<close>

definition identchars :: string where
  "identchars = ''abcdefghijklmnopqrstuvwxyzABCDEFGHIJKLMNOPQRSTUVWXYZ0123456789_''"

definition parseline :: "string \<Rightarrow> string option \<times> string option \<times> string" where
  "parseline line0 =
     (let line = strip line0 in
      if line = [] then (None, None, line)
      else if hd line = CHR ''!'' then (None, None, line)
      else
        (let line = (if hd line = CHR ''?'' then ''help '' @ tl line else line);
             i = length (takeWhile (\<lambda>c. c \<in> set identchars) line)
         in (Some (take i line), Some (strip (drop i line)), line)))"

text \<open>
  \<open>do_help\<close> is the only \<open>do_*\<close> method the class has. It prints the help text and
  returns \<open>None\<close>; it never touches the socket.
\<close>

definition do_help :: "client \<Rightarrow> string \<Rightarrow> py_error + bool \<times> client" where
  "do_help st arg = Inr (False, st\<lparr>help_calls := help_calls st @ [arg]\<rparr>)"

text \<open>
  \<^verbatim>\<open>
  def onecmd(self, line):
      cmd, arg, line = self.parseline(line)
      if not line:
          return self.emptyline()
      if cmd is None:
          return self.default(line)
      self.lastcmd = line
      if line == 'EOF' :
          self.lastcmd = ''
      if cmd == '':
          return self.default(line)
      else:
          try:
              func = getattr(self, 'do_' + cmd)
          except AttributeError:
              return self.default(line)
          return func(arg)

  def emptyline(self):
      if self.lastcmd:
          return self.onecmd(self.lastcmd)
  \<close>
  \<open>dispatch\<close> is \<open>onecmd\<close> from its second \<open>if\<close> on. \<open>emptyline\<close> calls \<open>onecmd\<close>
  again with the state unchanged; were the stored \<open>lastcmd\<close> to parse to the empty line,
  that call would come back to \<open>emptyline\<close> in the same state and recurse until
  Python raises \<open>RuntimeError\<close>.
\<close>

definition dispatch ::
  "(nat \<Rightarrow> bool) \<Rightarrow> client \<Rightarrow> string option \<Rightarrow> string option \<Rightarrow> string
     \<Rightarrow> py_error + bool \<times> client" where
  "dispatch up st0 cmd arg line =
     (case cmd of
        None \<Rightarrow> CommandLineClient_default up st0 line
      | Some c \<Rightarrow>
          (let st1 = st0\<lparr>lastcmd := line\<rparr>;
               st = (if line = ''EOF'' then st1\<lparr>lastcmd := []\<rparr> else st1)
           in if c = [] then CommandLineClient_default up st line
              else if c = ''help''
                then do_help st (case arg of None \<Rightarrow> [] | Some a \<Rightarrow> a)
              else CommandLineClient_default up st line))"

definition emptyline :: "(nat \<Rightarrow> bool) \<Rightarrow> client \<Rightarrow> py_error + bool \<times> client" where
  "emptyline up st =
     (if lastcmd st \<noteq> []
      then (case parseline (lastcmd st) of
              (cmd, arg, line) \<Rightarrow>
                if line = [] then Inl RuntimeError else dispatch up st cmd arg line)
      else Inr (False, st))"

definition onecmd :: "(nat \<Rightarrow> bool) \<Rightarrow> client \<Rightarrow> string \<Rightarrow> py_error + bool \<times> client" where
  "onecmd up st line0 =
     (case parseline line0 of
        (cmd, arg, line) \<Rightarrow>
          if line = [] then emptyline up st else dispatch up st cmd arg line)"

text \<open>
  \<^verbatim>\<open>
  stop = None
  while not stop:
      ...
      try:
          line = raw_input(self.prompt)
      except EOFError:
          line = 'EOF'
      line = self.precmd(line)
      stop = self.onecmd(line)
      stop = self.postcmd(stop, line)
  self.postloop()
  \<close>
  Standard input is the list of the lines still to come, without their line ends; once it
  is empty every \<open>raw_input\<close> raises \<open>EOFError\<close>. \<open>precmd\<close> and \<open>postcmd\<close> are the
  identity. The loop may run forever, so it is given fuel: \<open>Running\<close> is the state of a
  loop that has not left after that many iterations.
\<close>

datatype outcome = Returned client | Raised py_error | Running client

definition raw_input :: "string list \<Rightarrow> string \<times> string list" where
  "raw_input stdin = (case stdin of [] \<Rightarrow> (''EOF'', []) | l # ls \<Rightarrow> (l, ls))"

fun cmdloop :: "nat \<Rightarrow> (nat \<Rightarrow> bool) \<Rightarrow> client \<Rightarrow> string list \<Rightarrow> outcome" where
  "cmdloop 0 up st stdin = Running st"
| "cmdloop (Suc n) up st stdin =
     (case raw_input stdin of
        (line, rest) \<Rightarrow>
          (case onecmd up st line of
             Inl e \<Rightarrow> Raised e
           | Inr (stop, st') \<Rightarrow> if stop then Returned st' else cmdloop n up st' rest))"

section \<open>main: start-up\<close>

text \<open>
  \<open>int(s)\<close> for a \<open>str\<close>: white space around the literal is dropped, one sign is
  allowed, then at least one decimal digit and nothing else; anything else raises
  \<open>ValueError\<close>. Python integers are unbounded.
\<close>

definition is_digit :: "char \<Rightarrow> bool" where
  "is_digit c \<longleftrightarrow> c \<in> set ''0123456789''"

definition digit_value :: "char \<Rightarrow> nat" where
  "digit_value c = length (takeWhile (\<lambda>d. d \<noteq> c) ''0123456789'')"

definition decimal :: "string \<Rightarrow> nat" where
  "decimal ds = foldl (\<lambda>a c. 10 * a + digit_value c) 0 ds"

definition int_py :: "string \<Rightarrow> py_error + int" where
  "int_py s =
     (let t = strip s;
          neg = (t \<noteq> [] \<and> hd t = CHR ''-'');
          ds = (if t \<noteq> [] \<and> (hd t = CHR ''-'' \<or> hd t = CHR ''+'') then tl t else t)
      in if ds \<noteq> [] \<and> list_all is_digit ds
         then Inr (if neg then - int (decimal ds) else int (decimal ds))
         else Inl ValueError)"

text \<open>\<open>str(n)\<close> for an integer: its decimal digits, with a minus sign when negative.\<close>

function str_nat :: "nat \<Rightarrow> string" where
  "str_nat n =
     (if n < 10 then [''0123456789'' ! n]
      else str_nat (n div 10) @ [''0123456789'' ! (n mod 10)])"
  by pat_completeness auto
termination
  by (relation "measure id") auto

declare str_nat.simps [simp del]

definition str_int :: "int \<Rightarrow> string" where
  "str_int i = (if i < 0 then CHR ''-'' # str_nat (nat (- i)) else str_nat (nat i))"

text \<open>
  \<^verbatim>\<open>
  def main(argv):
      host = argv[1] if len(argv) > 1 else '127.0.0.1'
      port = int(argv[2]) if len(argv) > 2 else 1300

      sock = socket.socket(socket.AF_INET, socket.SOCK_STREAM)
      sock.connect((host, port))

      print '==== Connected to', host + ':' + str(port), '===='

      receiver = Receiver(sock)
      sender = CommandLineClient(sock)

      receiver.start()
      sender.cmdloop()
  \<close>
  The model returns what start-up does to the outside, in order, and the exception that
  ended it, if any. \<open>connect host port\<close> is the environment's answer to
  \<open>sock.connect((host, port))\<close>: \<open>None\<close> when the connection is made, the exception
  otherwise.
\<close>

datatype event =
    Socket_created
  | Connect_attempt string int
  | Printed string
  | Receiver_started
  | Cmdloop_entered

definition main ::
  "string list \<Rightarrow> (string \<Rightarrow> int \<Rightarrow> py_error option) \<Rightarrow> event list \<times> py_error option" where
  "main argv connect =
     (let host = (if length argv > 1 then argv ! 1 else ''127.0.0.1'') in
      case (if length argv > 2 then int_py (argv ! 2) else Inr 1300) of
        Inl e \<Rightarrow> ([], Some e)
      | Inr port \<Rightarrow>
          (case connect host port of
             Some e \<Rightarrow> ([Socket_created, Connect_attempt host port], Some e)
           | None \<Rightarrow>
               ([Socket_created, Connect_attempt host port,
                 Printed (''==== Connected to '' @ host @ '':'' @ str_int port @ '' ====''
                            @ [newline]),
                 Receiver_started, Cmdloop_entered], None)))"

section \<open>The URL table of the draft application\<close>

text \<open>
  \<^verbatim>\<open>
  urlpatterns = patterns('',
      url(r'^$', views.index, name='index'),
      url(r'^(?P<draft_id>\d+)/$', views.draft),
      url(r'^(?P<draft_id>\d+)/register$', views.register),
      url(r'^(?P<draft_id>\d+)/get_manager_updates$', views.get_manager_updates),
      url(r'^(?P<draft_id>\d+)/get_player_updates$', views.get_player_updates),
      url(r'^(?P<draft_id>\d+)/get_team$', views.get_team),
      url(r'^(?P<draft_id>\d+)/place_bid$', views.place_bid)
  )
  \<close>
  The regular expressions use four constructs: \<open>^\<close>, \<open>$\<close>, literal text, and the named
  group \<open>(?P<name>\d+)\<close>.

  \<open>django.conf.urls.patterns\<close> is the resolver of Django 1.4 to 1.9: it compiles each
  pattern with the flag \<open>re.UNICODE\<close> and searches the request path as text, not as
  bytes. A path is therefore a list of code points, and \<open>\d\<close> is every character the
  Unicode database of the interpreter classes as a decimal digit: the ten ASCII digits and
  the digits of many other scripts. That table belongs to the interpreter, not to the
  repository; it is the parameter \<open>digit\<close> of the matcher. The literal text of the
  patterns is ASCII; \<open>unicode\<close> reads it as text.
\<close>

definition unicode :: "string \<Rightarrow> nat list" where
  "unicode s = map of_char s"

abbreviation slash :: nat where
  "slash \<equiv> 47"

abbreviation line_feed :: nat where
  "line_feed \<equiv> 10"

text \<open>
  Two rows of the interpreter's table, for running the matcher on examples: the ASCII
  digits and the Arabic-Indic digits U+0660 to U+0669.
\<close>

definition sample_digit :: "nat \<Rightarrow> bool" where
  "sample_digit c \<longleftrightarrow> (48 \<le> c \<and> c \<le> 57) \<or> (1632 \<le> c \<and> c \<le> 1641)"

datatype view =
  index | draft | register | get_manager_updates | get_player_updates | get_team | place_bid

datatype rx = Bol | Eol | Lit string | Digits string

text \<open>
  Matching a pattern at position \<open>i\<close> of \<open>s\<close>, as Python's \<open>re\<close> does:
  \<open>^\<close> holds at position 0 only; \<open>$\<close> holds at the end and just before a line feed that
  ends the string; \<open>\d+\<close> is greedy and gives digits back one at a time when the rest of
  the pattern fails. The result is the dictionary of the named groups.
\<close>

fun rx_at ::
    "(nat \<Rightarrow> bool) \<Rightarrow> rx list \<Rightarrow> nat list \<Rightarrow> nat \<Rightarrow> (string \<times> nat list) list option"
  and rx_digits ::
    "(nat \<Rightarrow> bool) \<Rightarrow> string \<Rightarrow> rx list \<Rightarrow> nat list \<Rightarrow> nat \<Rightarrow> nat
       \<Rightarrow> (string \<times> nat list) list option"
where
  "rx_at digit [] s i = Some []"
| "rx_at digit (Bol # rs) s i = (if i = 0 then rx_at digit rs s i else None)"
| "rx_at digit (Eol # rs) s i =
     (if i = length s \<or> (Suc i = length s \<and> s ! i = line_feed)
      then rx_at digit rs s i else None)"
| "rx_at digit (Lit l # rs) s i =
     (if take (length l) (drop i s) = unicode l
      then rx_at digit rs s (i + length l) else None)"
| "rx_at digit (Digits name # rs) s i =
     rx_digits digit name rs s i (length (takeWhile digit (drop i s)))"
| "rx_digits digit name rs s i 0 = None"
| "rx_digits digit name rs s i (Suc k) =
     (case rx_at digit rs s (i + Suc k) of
        Some groups \<Rightarrow> Some ((name, take (Suc k) (drop i s)) # groups)
      | None \<Rightarrow> rx_digits digit name rs s i k)"

text \<open>\<open>regex.search(path)\<close>: the match at the leftmost position that has one.\<close>

definition rx_search ::
  "(nat \<Rightarrow> bool) \<Rightarrow> rx list \<Rightarrow> nat list \<Rightarrow> (string \<times> nat list) list option" where
  "rx_search digit rs s =
     (case List.find (\<lambda>i. rx_at digit rs s i \<noteq> None) [0..<Suc (length s)] of
        None \<Rightarrow> None
      | Some i \<Rightarrow> rx_at digit rs s i)"

definition urlpatterns :: "(rx list \<times> view) list" where
  "urlpatterns =
     [([Bol, Eol], index),
      ([Bol, Digits ''draft_id'', Lit ''/'', Eol], draft),
      ([Bol, Digits ''draft_id'', Lit ''/register'', Eol], register),
      ([Bol, Digits ''draft_id'', Lit ''/get_manager_updates'', Eol], get_manager_updates),
      ([Bol, Digits ''draft_id'', Lit ''/get_player_updates'', Eol], get_player_updates),
      ([Bol, Digits ''draft_id'', Lit ''/get_team'', Eol], get_team),
      ([Bol, Digits ''draft_id'', Lit ''/place_bid'', Eol], place_bid)]"

text \<open>
  The resolver tries the patterns in the order of the table; the first whose regular
  expression matches gives the view and its keyword arguments; no match is a 404.
\<close>

fun resolve ::
  "(nat \<Rightarrow> bool) \<Rightarrow> (rx list \<times> view) list \<Rightarrow> nat list
     \<Rightarrow> (view \<times> (string \<times> nat list) list) option" where
  "resolve digit [] path = None"
| "resolve digit ((r, v) # ps) path =
     (case rx_search digit r path of
        Some kwargs \<Rightarrow> Some (v, kwargs)
      | None \<Rightarrow> resolve digit ps path)"

section \<open>Properties of the Receiver\<close>

lemma readline_line:
  "newline \<notin> set l \<Longrightarrow> readline (l @ newline # rest) = (l @ [newline], rest)"
  by (induction l) auto

lemma readline_rest: "newline \<notin> set l \<Longrightarrow> readline l = (l, [])"
  by (induction l) auto

lemma file_iter_Nil: "file_iter [] = []"
  by (simp add: file_iter.simps)

lemma file_iter_line:
  "newline \<notin> set l \<Longrightarrow> file_iter (l @ newline # rest) = (l @ [newline]) # file_iter rest"
  by (subst file_iter.simps) (simp add: readline_line)

lemma file_iter_rest: "newline \<notin> set l \<Longrightarrow> l \<noteq> [] \<Longrightarrow> file_iter l = [l]"
  by (subst file_iter.simps) (simp add: readline_rest file_iter_Nil)

text \<open>
  What has been read up to a line feed does not influence how the rest is cut: the
  iterator of a stream whose first part ends a line is the concatenation of the two
  iterators.
\<close>

lemma file_iter_append:
  "pre = [] \<or> last pre = newline \<Longrightarrow> file_iter (pre @ s) = file_iter pre @ file_iter s"
proof (induction pre rule: length_induct)
  case (1 pre)
  show ?case
  proof (cases "pre = []")
    case True
    then show ?thesis by (simp add: file_iter_Nil)
  next
    case False
    with "1.prems" have "newline \<in> set pre"
      using last_in_set by metis
    then obtain l r where split: "pre = l @ newline # r" and l: "newline \<notin> set l"
      by (auto dest: split_list_first)
    from False "1.prems" split have r: "r = [] \<or> last r = newline"
      by (cases "r = []") auto
    have "length r < length pre"
      using split by simp
    with "1.IH" r have "file_iter (r @ s) = file_iter r @ file_iter s"
      by blast
    with split l show ?thesis
      by (simp add: file_iter_line)
  qed
qed

lemma file_iter_wire:
  "\<forall>l\<in>set ls. newline \<notin> set l \<Longrightarrow> file_iter (wire ls) = map (\<lambda>l. l @ [newline]) ls"
  by (induction ls) (simp_all add: wire_def file_iter_Nil file_iter_line)

lemma rstrip_newline: "rstrip (l @ [newline]) = rstrip l"
  by (simp add: rstrip_def isspace_def)

text \<open>
  Claim C1, as the code has it. When the socket delivers \<open>N\<close> lines, each ended by its
  line feed, the loop body runs \<open>N\<close> times, in the order of arrival, and the message the
  \<open>k\<close>-th run prints is the \<open>k\<close>-th line with all its trailing white space removed
  (\<open>rstrip()\<close> without an argument), the line feed being part of that white space. No
  line is dropped, repeated or cut anywhere else.
\<close>

theorem frames_delivered_rstripped:
  assumes "\<forall>l\<in>set ls. newline \<notin> set l"
  shows "Receiver_run (wire ls) = map (\<lambda>l. print_message (rstrip l)) ls"
  using assms
  by (simp add: Receiver_run_def file_iter_wire handle_message_def rstrip_newline o_def)

theorem frames_delivered_rstripped_witness:
  "Receiver_run (wire [''PONG'', ''a b  '', '''']) =
     [print_message ''PONG'', print_message ''a b'', print_message '''']"
  using frames_delivered_rstripped [of "[''PONG'', ''a b  '', '''']"]
  by (simp add: rstrip_def isspace_def)

text \<open>
  Claim C1 as stated asks for the exact content of the frame minus the line feed only.
  The frame \<open>a\<close>, space, line feed is printed as the message \<open>a\<close>: the space is removed
  as well.
\<close>

theorem frames_not_verbatim_counterexample:
  "Receiver_run (wire [''a '']) \<noteq> map print_message [''a '']"
  by (simp add: Receiver_run_def wire_def file_iter.simps handle_message_def rstrip_def
      isspace_def print_message_def)

text \<open>
  Claim C5. A stream that ends in the middle of a line is some complete lines \<open>pre\<close>
  followed by a non-empty rest \<open>p\<close> without a line feed. The iterator yields \<open>p\<close>,
  whole, as its last message, after the messages of \<open>pre\<close>, and the loop body handles it
  like any other message before the loop ends: nothing that was buffered is discarded.
\<close>

theorem partial_line_delivered:
  assumes "pre = [] \<or> last pre = newline" and "p \<noteq> []" and "newline \<notin> set p"
  shows "file_iter (pre @ p) = file_iter pre @ [p] \<and>
         Receiver_run (pre @ p) = Receiver_run pre @ [handle_message p]"
  using assms by (simp add: Receiver_run_def file_iter_append file_iter_rest)

theorem partial_line_delivered_witness:
  "file_iter (''PING'' @ [newline] @ ''PO'') = [''PING'' @ [newline], ''PO''] \<and>
   Receiver_run (''PING'' @ [newline] @ ''PO'') = [print_message ''PING'', print_message ''PO'']"
  using partial_line_delivered [of "''PING'' @ [newline]" "''PO''"]
  by (simp add: Receiver_run_def file_iter.simps handle_message_def rstrip_def isspace_def)

text \<open>
  Claim C6. A frame that is a line feed alone, arriving after any complete lines \<open>pre\<close>
  and before any further bytes \<open>rest\<close>, makes the loop body run once with the empty
  message: it is printed between the messages of \<open>pre\<close> and those of \<open>rest\<close>.
\<close>

theorem empty_line_delivered:
  assumes "pre = [] \<or> last pre = newline"
  shows "Receiver_run (pre @ newline # rest) =
         Receiver_run pre @ print_message [] # Receiver_run rest"
proof -
  have "file_iter (newline # rest) = [newline] # file_iter rest"
    using file_iter_line [of "[]" rest] by simp
  with assms show ?thesis
    by (simp add: Receiver_run_def file_iter_append handle_message_def rstrip_def isspace_def)
qed

theorem empty_line_delivered_witness:
  "Receiver_run (''a'' @ [newline] @ newline # ''b'' @ [newline]) =
     [print_message ''a'', print_message [], print_message ''b'']"
  using empty_line_delivered [of "''a'' @ [newline]" "''b'' @ [newline]"]
  by (simp add: Receiver_run_def file_iter.simps handle_message_def rstrip_def isspace_def)

section \<open>Properties of the interactive sender\<close>


text \<open>White space is gone from both ends of a stripped line.\<close>

lemma rstrip_ends: "rstrip s \<noteq> [] \<Longrightarrow> \<not> isspace (last (rstrip s))"
proof -
  assume ne: "rstrip s \<noteq> []"
  then have "dropWhile isspace (rev s) \<noteq> []" by (simp add: rstrip_def)
  then have "\<not> isspace (hd (dropWhile isspace (rev s)))" by (rule hd_dropWhile)
  with ne show ?thesis by (simp add: rstrip_def last_rev)
qed

lemma strip_ends: "strip s \<noteq> [] \<Longrightarrow> \<not> isspace (last (strip s))"
  unfolding strip_def by (rule rstrip_ends)

lemma rstrip_prefix: "\<exists>t. s = rstrip s @ t"
proof -
  have "rev (takeWhile isspace (rev s) @ dropWhile isspace (rev s)) = s"
    by (simp only: takeWhile_dropWhile_id rev_rev_ident)
  then have "rev (dropWhile isspace (rev s)) @ rev (takeWhile isspace (rev s)) = s"
    by (simp only: rev_append)
  then have "s = rstrip s @ rev (takeWhile isspace (rev s))"
    by (simp only: rstrip_def)
  then show ?thesis ..
qed

lemma strip_begins: "strip s \<noteq> [] \<Longrightarrow> \<not> isspace (hd (strip s))"
proof -
  assume ne: "strip s \<noteq> []"
  obtain t where t: "lstrip s = strip s @ t"
    using rstrip_prefix [of "lstrip s"] by (auto simp: strip_def)
  with ne have "hd (lstrip s) = hd (strip s)" by (cases "strip s") auto
  moreover from t ne have "lstrip s \<noteq> []" by auto
  then have "\<not> isspace (hd (lstrip s))" unfolding lstrip_def by (rule hd_dropWhile)
  ultimately show ?thesis by simp
qed

lemma strip_strip: "strip (strip s) = strip s"
proof (cases "strip s = []")
  case True
  have "strip [] = []" by (simp add: strip_def lstrip_def rstrip_def)
  with True show ?thesis by simp
next
  case False
  from False strip_begins [OF False] have l: "lstrip (strip s) = strip s"
    by (cases "strip s") (auto simp: lstrip_def)
  from False strip_ends [OF False] have "rstrip (strip s) = strip s"
    by (cases "strip s" rule: rev_cases) (auto simp: rstrip_def)
  with l show ?thesis by (simp add: strip_def [of "strip s"])
qed







text \<open>No handler ever asks the loop to stop, so \<open>cmdloop\<close> cannot return.\<close>

lemma default_never_stops:
  "CommandLineClient_default up st line = Inr (stop, st') \<Longrightarrow> \<not> stop"
  by (auto simp: CommandLineClient_default_def split: if_splits)

lemma dispatch_never_stops: "dispatch up st cmd arg line = Inr (stop, st') \<Longrightarrow> \<not> stop"
  by (auto simp: dispatch_def do_help_def Let_def dest: default_never_stops
      split: option.splits if_splits)

lemma onecmd_never_stops: "onecmd up st line = Inr (stop, st') \<Longrightarrow> \<not> stop"
  by (auto simp: onecmd_def emptyline_def dest: dispatch_never_stops
      split: prod.splits if_splits)

lemma cmdloop_never_returns: "cmdloop n up st stdin \<noteq> Returned st'"
proof (induction n arbitrary: st stdin)
  case 0
  show ?case by simp
next
  case (Suc n)
  show ?case
    using Suc.IH
    by (auto split: prod.splits sum.splits dest: onecmd_never_stops)
qed

text \<open>
  The remembered command \<open>lastcmd\<close> is empty or holds a character that is not white
  space, in every state the loop reaches.
\<close>

lemma strip_Nil_iff: "strip s = [] \<longleftrightarrow> (\<forall>c\<in>set s. isspace c)"
proof -
  have "strip s = [] \<longleftrightarrow> (\<forall>c\<in>set (dropWhile isspace s). isspace c)"
    by (simp add: strip_def rstrip_def lstrip_def dropWhile_eq_Nil_conv)
  also have "\<dots> \<longleftrightarrow> dropWhile isspace s = []"
    using hd_dropWhile [of isspace s]
    by (cases "dropWhile isspace s") (auto dest: set_dropWhileD)
  finally show ?thesis by (simp add: dropWhile_eq_Nil_conv)
qed

lemma parseline_line:
  assumes "parseline x = (cmd, arg, l)" and "l \<noteq> []"
  shows "strip l \<noteq> []"
proof -
  from assms have "l = strip x \<or> l = ''help '' @ tl (strip x)"
    by (auto simp: parseline_def Let_def split: if_splits)
  then show ?thesis
  proof
    assume "l = strip x"
    with assms show ?thesis by (simp add: strip_strip)
  next
    assume "l = ''help '' @ tl (strip x)"
    then have "CHR ''h'' \<in> set l" by simp
    moreover have "\<not> isspace CHR ''h''" by (simp add: isspace_def)
    ultimately show ?thesis by (auto simp: strip_Nil_iff)
  qed
qed

lemma dispatch_lastcmd:
  assumes "dispatch up st cmd arg l = Inr (stop, st')"
  shows "lastcmd st' = lastcmd st \<or> lastcmd st' = l \<or> lastcmd st' = []"
  using assms
  by (auto simp: dispatch_def do_help_def CommandLineClient_default_def Let_def
      split: option.splits if_splits)

lemma onecmd_lastcmd:
  assumes "onecmd up st line0 = Inr (stop, st')"
    and "lastcmd st = [] \<or> strip (lastcmd st) \<noteq> []"
  shows "lastcmd st' = [] \<or> strip (lastcmd st') \<noteq> []"
proof -
  obtain cmd arg l where p: "parseline line0 = (cmd, arg, l)"
    by (cases "parseline line0") auto
  show ?thesis
  proof (cases "l = []")
    case False
    with assms p have d: "dispatch up st cmd arg l = Inr (stop, st')"
      by (simp add: onecmd_def)
    from dispatch_lastcmd [OF d] parseline_line [OF p False] assms(2)
    show ?thesis by auto
  next
    case True
    with assms p have e: "emptyline up st = Inr (stop, st')"
      by (simp add: onecmd_def)
    show ?thesis
    proof (cases "lastcmd st = []")
      case True
      with e show ?thesis by (simp add: emptyline_def)
    next
      case False
      obtain cmd2 arg2 l2 where p2: "parseline (lastcmd st) = (cmd2, arg2, l2)"
        by (cases "parseline (lastcmd st)") auto
      with e False have l2: "l2 \<noteq> []" and d: "dispatch up st cmd2 arg2 l2 = Inr (stop, st')"
        by (auto simp: emptyline_def split: if_splits)
      from dispatch_lastcmd [OF d] parseline_line [OF p2 l2] assms(2)
      show ?thesis by auto
    qed
  qed
qed

lemma cmdloop_lastcmd:
  "cmdloop n up st stdin = Running st' \<Longrightarrow> lastcmd st = [] \<or> strip (lastcmd st) \<noteq> [] \<Longrightarrow>
   lastcmd st' = [] \<or> strip (lastcmd st') \<noteq> []"
proof (induction n arbitrary: st stdin)
  case 0
  then show ?case by simp
next
  case (Suc n)
  obtain line rest where r: "raw_input stdin = (line, rest)"
    by (cases "raw_input stdin") auto
  show ?case
  proof (cases "onecmd up st line")
    case (Inl e)
    with Suc.prems r show ?thesis by simp
  next
    case (Inr res)
    obtain stop st2 where res: "res = (stop, st2)" by (cases res) auto
    with Inr have o: "onecmd up st line = Inr (stop, st2)" by simp
    with Suc.prems r have "cmdloop n up st2 rest = Running st'"
      by (simp split: if_splits)
    moreover from onecmd_lastcmd [OF o Suc.prems(2)]
    have "lastcmd st2 = [] \<or> strip (lastcmd st2) \<noteq> []" .
    ultimately show ?thesis by (rule Suc.IH)
  qed
qed

text \<open>
  Claim C2, as the code has it. \<open>cmdloop\<close> hands every line it reads to \<open>onecmd\<close>.
  A line that is not empty once stripped, does not begin with \<open>?\<close> and whose leading
  word is not \<open>help\<close> is sent as one message: the line without the white space around
  it, and a line feed. Lines beginning with \<open>!\<close> are among these. A line that begins
  with \<open>?\<close> or with the word \<open>help\<close> goes to \<open>do_help\<close> and nothing is sent. An
  empty line is never sent as an empty message: with no remembered command it does
  nothing, and otherwise it is handled exactly as the remembered command typed again, so
  that a line sent before is sent once more.
\<close>

theorem onecmd_forwards:
  "(strip line \<noteq> [] \<and> hd (strip line) \<noteq> CHR ''?'' \<and>
      takeWhile (\<lambda>c. c \<in> set identchars) (strip line) \<noteq> ''help'' \<and> up (length (sent st))
    \<longrightarrow> (\<exists>st'. onecmd up st line = Inr (False, st') \<and>
               sent st' = sent st @ [strip line @ [newline]] \<and>
               help_calls st' = help_calls st))
   \<and> (strip line \<noteq> [] \<and>
       (hd (strip line) = CHR ''?'' \<or>
        takeWhile (\<lambda>c. c \<in> set identchars) (strip line) = ''help'')
    \<longrightarrow> (\<exists>st'. onecmd up st line = Inr (False, st') \<and> sent st' = sent st \<and>
               length (help_calls st') = Suc (length (help_calls st))))
   \<and> (strip line = [] \<and> lastcmd st = [] \<longrightarrow> onecmd up st line = Inr (False, st))
   \<and> (strip line = [] \<and> strip (lastcmd st) \<noteq> []
    \<longrightarrow> onecmd up st line = onecmd up st (lastcmd st))"
proof (intro conjI impI)
  assume "strip line \<noteq> [] \<and> hd (strip line) \<noteq> CHR ''?'' \<and>
      takeWhile (\<lambda>c. c \<in> set identchars) (strip line) \<noteq> ''help'' \<and> up (length (sent st))"
  then show "\<exists>st'. onecmd up st line = Inr (False, st') \<and>
               sent st' = sent st @ [strip line @ [newline]] \<and>
               help_calls st' = help_calls st"
    by (simp add: onecmd_def parseline_def Let_def dispatch_def CommandLineClient_default_def
        takeWhile_eq_take [symmetric])
next
  assume h: "strip line \<noteq> [] \<and>
       (hd (strip line) = CHR ''?'' \<or>
        takeWhile (\<lambda>c. c \<in> set identchars) (strip line) = ''help'')"
  have "hd (strip line) \<noteq> CHR ''!''"
    if "takeWhile (\<lambda>c. c \<in> set identchars) (strip line) = ''help''"
    using that h by (cases "strip line") (auto simp: identchars_def split: if_splits)
  with h show "\<exists>st'. onecmd up st line = Inr (False, st') \<and> sent st' = sent st \<and>
               length (help_calls st') = Suc (length (help_calls st))"
    by (auto simp: onecmd_def parseline_def Let_def dispatch_def do_help_def identchars_def
        takeWhile_eq_take [symmetric])
next
  assume "strip line = [] \<and> lastcmd st = []"
  then show "onecmd up st line = Inr (False, st)"
    by (simp add: onecmd_def parseline_def emptyline_def)
next
  assume h: "strip line = [] \<and> strip (lastcmd st) \<noteq> []"
  then have ne: "lastcmd st \<noteq> []"
    by (auto simp: strip_def lstrip_def rstrip_def)
  obtain cmd arg l where p: "parseline (lastcmd st) = (cmd, arg, l)"
    by (cases "parseline (lastcmd st)") auto
  with h have "l \<noteq> []"
    by (auto simp: parseline_def Let_def split: if_splits)
  with h ne p show "onecmd up st line = onecmd up st (lastcmd st)"
    by (simp add: onecmd_def emptyline_def parseline_def [of line])
qed

theorem onecmd_forwards_witness:
  "(\<exists>st'. onecmd (\<lambda>_. True) new_client '' !say hi '' = Inr (False, st') \<and>
          sent st' = [''!say hi'' @ [newline]] \<and> help_calls st' = [])
   \<and> (\<exists>st'. onecmd (\<lambda>_. True) new_client ''?bid'' = Inr (False, st') \<and>
          sent st' = [] \<and> length (help_calls st') = Suc 0)
   \<and> onecmd (\<lambda>_. True) new_client '' '' = Inr (False, new_client)
   \<and> onecmd (\<lambda>_. True) (new_client\<lparr>lastcmd := ''abc'', sent := [''abc'' @ [newline]]\<rparr>) [] =
       Inr (False, new_client\<lparr>lastcmd := ''abc'',
                               sent := [''abc'' @ [newline], ''abc'' @ [newline]]\<rparr>)"
proof -
  have again: "onecmd (\<lambda>_. True) (new_client\<lparr>lastcmd := ''abc'', sent := [''abc'' @ [newline]]\<rparr>)
      ''abc'' = Inr (False, new_client\<lparr>lastcmd := ''abc'',
                               sent := [''abc'' @ [newline], ''abc'' @ [newline]]\<rparr>)"
    by (simp add: onecmd_def parseline_def strip_def lstrip_def rstrip_def isspace_def
        identchars_def Let_def dispatch_def CommandLineClient_default_def new_client_def)
  show ?thesis
    using
      onecmd_forwards [where line = "'' !say hi ''" and up = "\<lambda>_. True" and st = new_client]
      onecmd_forwards [where line = "''?bid''" and up = "\<lambda>_. True" and st = new_client]
      onecmd_forwards [where line = "'' ''" and up = "\<lambda>_. True" and st = new_client]
      onecmd_forwards [where line = "[]" and up = "\<lambda>_. True"
        and st = "new_client\<lparr>lastcmd := ''abc'', sent := [''abc'' @ [newline]]\<rparr>"]
      again
    by (simp add: strip_def lstrip_def rstrip_def isspace_def identchars_def new_client_def)
qed

text \<open>The line \<open>abc\<close> and then an empty line: \<open>abc\<close> goes out twice.\<close>

lemma empty_line_repeats:
  "cmdloop 2 (\<lambda>_. True) new_client [''abc'', []] =
     Running (new_client\<lparr>lastcmd := ''abc'', sent := [''abc'' @ [newline], ''abc'' @ [newline]]\<rparr>)"
  by (simp add: eval_nat_numeral raw_input_def onecmd_def emptyline_def parseline_def strip_def
      lstrip_def rstrip_def isspace_def identchars_def Let_def dispatch_def
      CommandLineClient_default_def new_client_def)

text \<open>
  Claim C2 as stated has every line forwarded, the line \<open>help\<close> among them. The loop
  reads \<open>help\<close>, calls \<open>do_help\<close>, and sends nothing.
\<close>

theorem help_not_forwarded_counterexample:
  "cmdloop 1 (\<lambda>_. True) new_client [''help''] =
     Running (new_client\<lparr>lastcmd := ''help'', help_calls := [[]]\<rparr>)"
  by (simp add: raw_input_def onecmd_def parseline_def strip_def lstrip_def rstrip_def
      isspace_def identchars_def Let_def dispatch_def do_help_def new_client_def)

lemma parseline_EOF: "parseline ''EOF'' = (Some ''EOF'', Some [], ''EOF'')"
  by (simp add: parseline_def strip_def lstrip_def rstrip_def isspace_def identchars_def Let_def)

lemma onecmd_EOF:
  "onecmd (\<lambda>_. True) st ''EOF'' =
     Inr (False, st\<lparr>lastcmd := [], sent := sent st @ [''EOF'' @ [newline]]\<rparr>)"
  by (simp add: onecmd_def parseline_EOF dispatch_def CommandLineClient_default_def)

text \<open>
  Claim C7 says that the interactive loop ends when standard input is at its end. On the
  code it does not: at end of input \<open>raw_input\<close> raises \<open>EOFError\<close>, \<open>cmdloop\<close> turns
  that into the line \<open>EOF\<close>, the client has no \<open>do_EOF\<close>, and \<open>default\<close> sends the
  line and returns \<open>None\<close>. With a socket that takes every send, the loop is still
  running after any number \<open>n\<close> of iterations and has sent \<open>n\<close> lines \<open>EOF\<close>.
\<close>

theorem cmdloop_spins_at_eof:
  "\<exists>st'. cmdloop n (\<lambda>_. True) st [] = Running st' \<and>
         sent st' = sent st @ replicate n (''EOF'' @ [newline])"
proof (induction n arbitrary: st)
  case 0
  show ?case by simp
next
  case (Suc n)
  from Suc.IH [of "st\<lparr>lastcmd := [], sent := sent st @ [''EOF'' @ [newline]]\<rparr>"]
  show ?case
    by (auto simp: raw_input_def onecmd_EOF replicate_append_same)
qed

theorem cmdloop_spins_at_eof_witness:
  "\<exists>st'. cmdloop 3 (\<lambda>_. True) new_client [] = Running st' \<and>
         sent st' = [''EOF'' @ [newline], ''EOF'' @ [newline], ''EOF'' @ [newline]]"
  using cmdloop_spins_at_eof [of 3 new_client]
  by (simp add: new_client_def eval_nat_numeral)

section \<open>Properties of start-up\<close>

text \<open>When \<open>int\<close> raises: exactly on the strings that are not a decimal literal.\<close>

lemma int_py_ValueError_iff:
  "int_py s = Inl ValueError \<longleftrightarrow>
     \<not> (\<exists>sign ds. strip s = sign @ ds \<and> sign \<in> {[], ''+'', ''-''} \<and> ds \<noteq> [] \<and> list_all is_digit ds)"
proof (cases "strip s")
  case Nil
  then show ?thesis by (simp add: int_py_def)
next
  case (Cons c r)
  show ?thesis
  proof (cases "c = CHR ''-'' \<or> c = CHR ''+''")
    case True
    then have nd: "\<not> is_digit c" by (auto simp: is_digit_def)
    have "(\<exists>sign ds. c # r = sign @ ds \<and> sign \<in> {[], ''+'', ''-''} \<and> ds \<noteq> [] \<and> list_all is_digit ds)
          \<longleftrightarrow> r \<noteq> [] \<and> list_all is_digit r" (is "?L \<longleftrightarrow> ?R")
    proof
      assume ?L
      then obtain sign ds where e: "c # r = sign @ ds" and sg: "sign \<in> {[], ''+'', ''-''}"
        and ds: "ds \<noteq> []" "list_all is_digit ds" by blast
      from e sg ds nd have "r = ds" by (cases sign) auto
      with ds show ?R by simp
    next
      assume ?R
      with True have "c # r = [c] @ r \<and> [c] \<in> {[], ''+'', ''-''} \<and> r \<noteq> [] \<and> list_all is_digit r"
        by auto
      then show ?L by blast
    qed
    with True Cons show ?thesis by (auto simp: int_py_def Let_def)
  next
    case False
    have "(\<exists>sign ds. c # r = sign @ ds \<and> sign \<in> {[], ''+'', ''-''} \<and> ds \<noteq> [] \<and> list_all is_digit ds)
          \<longleftrightarrow> list_all is_digit (c # r)" (is "?L \<longleftrightarrow> ?R")
    proof
      assume ?L
      then obtain sign ds where e: "c # r = sign @ ds" and sg: "sign \<in> {[], ''+'', ''-''}"
        and ds: "ds \<noteq> []" "list_all is_digit ds" by blast
      from e sg False have "sign = []" by (cases sign) auto
      with e ds show ?R by simp
    next
      assume ?R
      then have "c # r = [] @ (c # r) \<and> [] \<in> {[], ''+'', ''-''} \<and> c # r \<noteq> [] \<and> list_all is_digit (c # r)"
        by simp
      then show ?L by blast
    qed
    with False Cons show ?thesis by (auto simp: int_py_def Let_def)
  qed
qed

text \<open>\<open>int\<close> reads back what \<open>str\<close> writes.\<close>

lemma digit_value_nth: "d < 10 \<Longrightarrow> digit_value (''0123456789'' ! d) = d"
proof -
  assume "d < 10"
  then have "d \<in> {0, 1, 2, 3, 4, 5, 6, 7, 8, 9}" by auto
  then show ?thesis by (auto simp: digit_value_def)
qed

lemma is_digit_nth: "d < 10 \<Longrightarrow> is_digit (''0123456789'' ! d)"
proof -
  assume "d < 10"
  then have "d \<in> {0, 1, 2, 3, 4, 5, 6, 7, 8, 9}" by auto
  then show ?thesis by (auto simp: is_digit_def)
qed

lemma decimal_snoc: "decimal (ds @ [c]) = 10 * decimal ds + digit_value c"
  by (simp add: decimal_def)

lemma decimal_str_nat: "decimal (str_nat n) = n"
proof (induction n rule: str_nat.induct)
  case (1 n)
  show ?case
  proof (cases "n < 10")
    case True
    then show ?thesis
      by (subst str_nat.simps) (simp add: decimal_def digit_value_nth)
  next
    case False
    with 1 show ?thesis
      by (subst str_nat.simps) (simp add: decimal_snoc digit_value_nth)
  qed
qed

lemma digits_str_nat: "str_nat n \<noteq> [] \<and> list_all is_digit (str_nat n)"
proof (induction n rule: str_nat.induct)
  case (1 n)
  show ?case
  proof (cases "n < 10")
    case True
    then show ?thesis
      by (subst (1 2) str_nat.simps) (simp add: is_digit_nth)
  next
    case False
    with 1 show ?thesis
      by (subst (1 2) str_nat.simps) (simp add: is_digit_nth)
  qed
qed

lemma strip_digits: "ds \<noteq> [] \<Longrightarrow> list_all is_digit ds \<Longrightarrow> strip ds = ds"
proof -
  assume ne: "ds \<noteq> []" and dg: "list_all is_digit ds"
  have ns: "\<not> isspace c" if "is_digit c" for c
    using that by (auto simp: is_digit_def isspace_def)
  from ne dg have l: "lstrip ds = ds"
    by (cases ds) (auto simp: lstrip_def dest: ns)
  from ne dg have "rstrip ds = ds"
    by (cases ds rule: rev_cases) (auto simp: rstrip_def dest: ns)
  with l show ?thesis by (simp add: strip_def)
qed

lemma int_py_digits:
  "ds \<noteq> [] \<Longrightarrow> list_all is_digit ds \<Longrightarrow> int_py ds = Inr (int (decimal ds))"
proof -
  assume ne: "ds \<noteq> []" and dg: "list_all is_digit ds"
  then have "is_digit (hd ds)" by (cases ds) auto
  then have "hd ds \<noteq> CHR ''-''" "hd ds \<noteq> CHR ''+''" by (auto simp: is_digit_def)
  with ne dg show ?thesis
    by (simp add: int_py_def strip_digits Let_def)
qed

lemma int_py_str_nat: "int_py (str_nat n) = Inr (int n)"
  using digits_str_nat [of n] by (simp add: int_py_digits decimal_str_nat)

lemma int_py_str_int: "int_py (str_int i) = Inr i"
proof (cases "i < 0")
  case False
  then show ?thesis by (simp add: str_int_def int_py_str_nat)
next
  case True
  define ds where "ds = str_nat (nat (- i))"
  have ds: "ds \<noteq> []" "list_all is_digit ds"
    using digits_str_nat [of "nat (- i)"] by (simp_all add: ds_def)
  have ns: "\<not> isspace c" if "is_digit c" for c
    using that by (auto simp: is_digit_def isspace_def)
  from ds have "\<not> isspace (last ds)"
    by (cases ds rule: rev_cases) (auto dest: ns)
  with ds have r: "rstrip (CHR ''-'' # ds) = CHR ''-'' # ds"
    by (cases ds rule: rev_cases) (auto simp: rstrip_def)
  have l: "lstrip (CHR ''-'' # ds) = CHR ''-'' # ds"
    by (simp add: lstrip_def isspace_def)
  from True ds show ?thesis
    by (simp add: str_int_def int_py_def strip_def l r Let_def ds_def [symmetric])
      (simp add: ds_def decimal_str_nat)
qed

text \<open>
  Claim C4. Without a first argument the connection goes to \<open>127.0.0.1\<close>, and then
  there is no second argument either, so to port 1300; with a first argument only, to
  that host and port 1300; with both, to that host and to the integer \<open>int\<close> reads
  from the second argument. In each case the socket is created first and the connection
  attempted next.
\<close>

theorem main_target:
  "(length argv \<le> 1 \<longrightarrow>
      take 2 (fst (main argv connect)) = [Socket_created, Connect_attempt ''127.0.0.1'' 1300])
   \<and> (length argv = 2 \<longrightarrow>
      take 2 (fst (main argv connect)) = [Socket_created, Connect_attempt (argv ! 1) 1300])
   \<and> (length argv > 2 \<and> int_py (argv ! 2) = Inr port \<longrightarrow>
      take 2 (fst (main argv connect)) = [Socket_created, Connect_attempt (argv ! 1) port])"
  by (auto simp: main_def Let_def split: option.splits)

theorem main_target_witness:
  "take 2 (fst (main [''client''] (\<lambda>_ _. None))) =
     [Socket_created, Connect_attempt ''127.0.0.1'' 1300]
   \<and> take 2 (fst (main [''client'', ''example.org''] (\<lambda>_ _. None))) =
     [Socket_created, Connect_attempt ''example.org'' 1300]
   \<and> take 2 (fst (main [''client'', ''example.org'', ''8080''] (\<lambda>_ _. None))) =
     [Socket_created, Connect_attempt ''example.org'' 8080]"
proof -
  have p: "int_py ''8080'' = Inr 8080"
    by (simp add: int_py_def strip_def lstrip_def rstrip_def isspace_def is_digit_def
        decimal_def digit_value_def Let_def)
  show ?thesis
    using main_target [where argv = "[''client'']" and connect = "\<lambda>_ _. None"]
      main_target [where argv = "[''client'', ''example.org'']" and connect = "\<lambda>_ _. None"]
      main_target [where argv = "[''client'', ''example.org'', ''8080'']"
        and connect = "\<lambda>_ _. None" and port = 8080] p
    by simp
qed

text \<open>
  Claim C10. When a second argument is there and \<open>int\<close> raises \<open>ValueError\<close> on it
  (by \<open>int_py_ValueError_iff\<close>: when it is not a decimal literal), \<open>main\<close> ends with
  that \<open>ValueError\<close> and has done nothing to the outside: no socket was created and no
  connection attempted, whatever the network would have answered.
\<close>

theorem main_bad_port:
  assumes "length argv > 2" and "int_py (argv ! 2) = Inl ValueError"
  shows "main argv connect = ([], Some ValueError)"
  using assms by (simp add: main_def)

theorem main_bad_port_witness:
  "main [''client'', ''localhost'', ''13oo''] (\<lambda>_ _. None) = ([], Some ValueError)"
proof -
  have p: "int_py ''13oo'' = Inl ValueError"
    by (simp add: int_py_def strip_def lstrip_def rstrip_def isspace_def is_digit_def Let_def)
  show ?thesis
    using main_bad_port [of "[''client'', ''localhost'', ''13oo'']" "\<lambda>_ _. None"] p
    by simp
qed

section \<open>Properties of the URL table\<close>

text \<open>A pattern that begins with \<open>^\<close> matches at position 0 or nowhere.\<close>

lemma rx_search_Bol: "rx_search digit (Bol # rs) s = rx_at digit rs s 0"
proof -
  have tail:
    "List.find (\<lambda>i. rx_at digit (Bol # rs) s i \<noteq> None) [Suc 0..<Suc (length s)] = None"
    by (auto simp: find_None_iff)
  have upt: "[0..<Suc (length s)] = 0 # [Suc 0..<Suc (length s)]"
    by (subst upt_rec) simp
  show ?thesis
    unfolding rx_search_def upt using tail by (cases "rx_at digit rs s 0") simp_all
qed

lemma take_whole: "take (length x) r = x \<and> length r = length x \<longleftrightarrow> r = x"
  by auto

lemma take_all_but_last:
  "take (length x) r = x \<and> length r = Suc (length x) \<and> r ! length x = c \<longleftrightarrow> r = x @ [c]"
proof
  assume "take (length x) r = x \<and> length r = Suc (length x) \<and> r ! length x = c"
  then have t: "take (length x) r = x" and n: "length r = Suc (length x)"
    and c: "r ! length x = c" by simp_all
  from n have "take (Suc (length x)) r = take (length x) r @ [r ! length x]"
    by (intro take_Suc_conv_app_nth) simp
  moreover from n have "take (Suc (length x)) r = r" by simp
  ultimately show "r = x @ [c]" using t c by simp
next
  assume "r = x @ [c]"
  then show "take (length x) r = x \<and> length r = Suc (length x) \<and> r ! length x = c"
    by simp
qed

lemma length_unicode: "length (unicode l) = length l"
  by (simp add: unicode_def)

lemma rx_at_Lit_Eol:
  "rx_at digit [Lit l, Eol] (ds @ r) (length ds) =
     (if r = unicode l \<or> r = unicode l @ [line_feed] then Some [] else None)"
proof -
  have a: "r = unicode l \<longleftrightarrow> take (length l) r = unicode l \<and> length r = length l"
    using take_whole [of "unicode l" r] by (simp add: length_unicode)
  have b: "r = unicode l @ [line_feed] \<longleftrightarrow>
           take (length l) r = unicode l \<and> length r = Suc (length l) \<and> r ! length l = line_feed"
    using take_all_but_last [of "unicode l" r line_feed] by (simp add: length_unicode)
  show ?thesis
    unfolding a b by (auto simp: nth_append)
qed

text \<open>
  Backtracking into the digits never finds a match when a slash must follow them: the
  only candidate is the whole run of digits.
\<close>

lemma rx_digits_whole_run:
  "k \<le> length ds \<Longrightarrow> list_all digit ds \<Longrightarrow> \<not> digit slash \<Longrightarrow>
   rx_digits digit name (Lit (CHR ''/'' # l) # rs) (ds @ rest) 0 k =
     (if k = length ds \<and> k > 0 then
        (case rx_at digit (Lit (CHR ''/'' # l) # rs) (ds @ rest) k of
           Some groups \<Rightarrow> Some ((name, ds) # groups) | None \<Rightarrow> None)
      else None)"
proof (induction k)
  case 0
  show ?case by simp
next
  case (Suc k)
  show ?case
  proof (cases "Suc k = length ds")
    case True
    with Suc have lower:
      "rx_digits digit name (Lit (CHR ''/'' # l) # rs) (ds @ rest) 0 k = None"
      by simp
    from True have "take (Suc k) (ds @ rest) = ds" by simp
    with lower have
      "rx_digits digit name (Lit (CHR ''/'' # l) # rs) (ds @ rest) 0 (Suc k) =
        (case rx_at digit (Lit (CHR ''/'' # l) # rs) (ds @ rest) (Suc k) of
           Some groups \<Rightarrow> Some ((name, ds) # groups) | None \<Rightarrow> None)"
      by (simp del: rx_at.simps split: option.splits)
    moreover from True have "ds \<noteq> []" by auto
    ultimately show ?thesis using True [symmetric] by (simp del: rx_at.simps)
  next
    case False
    with Suc.prems have lt: "Suc k < length ds" by simp
    with Suc.prems have "digit (ds ! Suc k)" by (simp add: list_all_length)
    with Suc.prems have "ds ! Suc k \<noteq> slash" by auto
    moreover from lt have "drop (Suc k) (ds @ rest) = ds ! Suc k # drop (Suc (Suc k)) ds @ rest"
      by (simp add: Cons_nth_drop_Suc)
    ultimately have "rx_at digit (Lit (CHR ''/'' # l) # rs) (ds @ rest) (Suc k) = None"
      by (simp add: unicode_def)
    with Suc lt show ?thesis by simp
  qed
qed

lemma takeWhile_digits:
  "list_all digit ds \<Longrightarrow> rest = [] \<or> \<not> digit (hd rest) \<Longrightarrow>
   takeWhile digit (ds @ rest) = ds"
  by (cases rest) (auto simp: list_all_iff takeWhile_append)

lemma draft_route:
  assumes "ds \<noteq> []" and "list_all digit ds" and "rest = [] \<or> \<not> digit (hd rest)"
    and "\<not> digit slash"
  shows "rx_search digit [Bol, Digits name, Lit (CHR ''/'' # l), Eol] (ds @ rest) =
           (if rest = unicode (CHR ''/'' # l) \<or> rest = unicode (CHR ''/'' # l) @ [line_feed]
            then Some [(name, ds)] else None)"
proof -
  have "rx_at digit [Lit (CHR ''/'' # l), Eol] (ds @ rest) (length ds) =
          (if rest = unicode (CHR ''/'' # l) \<or> rest = unicode (CHR ''/'' # l) @ [line_feed]
           then Some [] else None)"
    by (rule rx_at_Lit_Eol)
  with assms show ?thesis
    by (simp add: rx_search_Bol takeWhile_digits rx_digits_whole_run del: rx_at.simps(4))
qed

lemma index_route:
  "rx_search digit [Bol, Eol] s = (if s = [] \<or> s = [line_feed] then Some [] else None)"
  by (cases s) (auto simp: rx_search_Bol)

lemma index_route_None: "ds \<noteq> [] \<Longrightarrow> rx_search digit [Bol, Eol] (ds @ c # l) = None"
  by (cases ds) (auto simp: index_route)

lemma draft_route_None:
  assumes "\<exists>c\<in>set (takeWhile (\<lambda>c. c \<noteq> slash) path). \<not> digit c" and slash: "\<not> digit slash"
  shows "rx_search digit [Bol, Digits name, Lit (CHR ''/'' # l), Eol] path = None"
proof -
  define ds where "ds = takeWhile digit path"
  define rest where "rest = dropWhile digit path"
  have path: "path = ds @ rest" and ds: "list_all digit ds"
    and rest: "rest = [] \<or> \<not> digit (hd rest)"
    using hd_dropWhile [of digit path]
    by (auto simp: ds_def rest_def list_all_iff dest: set_takeWhileD)
  show ?thesis
  proof (cases "ds = []")
    case True
    then show ?thesis by (simp add: rx_search_Bol ds_def)
  next
    case False
    have "\<not> (rest = unicode (CHR ''/'' # l) \<or> rest = unicode (CHR ''/'' # l) @ [line_feed])"
    proof
      assume "rest = unicode (CHR ''/'' # l) \<or> rest = unicode (CHR ''/'' # l) @ [line_feed]"
      then obtain t where "rest = slash # t" by (auto simp: unicode_def)
      moreover from ds slash have "\<forall>c\<in>set ds. c \<noteq> slash" by (auto simp: list_all_iff)
      ultimately have "takeWhile (\<lambda>c. c \<noteq> slash) path = ds"
        using path by (simp add: takeWhile_tail)
      with assms ds show False by (auto simp: list_all_iff)
    qed
    with False ds rest slash show ?thesis
      unfolding path by (simp add: draft_route)
  qed
qed

text \<open>
  Claim C9. \<open>digit\<close> is the class of characters \<open>\d\<close> stands for, whatever the
  interpreter's table holds, as long as the slash is not in it. For a non-empty string
  \<open>ds\<close> of such digits, the paths \<open>ds/register\<close>, \<open>ds/get_manager_updates\<close>,
  \<open>ds/get_player_updates\<close>, \<open>ds/get_team\<close> and \<open>ds/place_bid\<close> resolve to the view
  of that name, and \<open>ds/\<close> to \<open>draft\<close>, each with the keyword argument \<open>draft_id\<close>
  bound to \<open>ds\<close>. The empty path resolves to \<open>index\<close>. A path whose part before the
  first slash holds a character that is not a digit is matched by none of the patterns of
  the draft views.
\<close>

theorem urlpatterns_dispatch:
  assumes slash: "\<not> digit slash"
  shows
  "(ds \<noteq> [] \<and> list_all digit ds \<longrightarrow>
      resolve digit urlpatterns (ds @ unicode ''/register'') =
        Some (register, [(''draft_id'', ds)]) \<and>
      resolve digit urlpatterns (ds @ unicode ''/get_manager_updates'') =
        Some (get_manager_updates, [(''draft_id'', ds)]) \<and>
      resolve digit urlpatterns (ds @ unicode ''/get_player_updates'') =
        Some (get_player_updates, [(''draft_id'', ds)]) \<and>
      resolve digit urlpatterns (ds @ unicode ''/get_team'') =
        Some (get_team, [(''draft_id'', ds)]) \<and>
      resolve digit urlpatterns (ds @ unicode ''/place_bid'') =
        Some (place_bid, [(''draft_id'', ds)]) \<and>
      resolve digit urlpatterns (ds @ unicode ''/'') = Some (draft, [(''draft_id'', ds)]))
   \<and> resolve digit urlpatterns [] = Some (index, [])
   \<and> ((\<exists>c\<in>set (takeWhile (\<lambda>c. c \<noteq> slash) path). \<not> digit c) \<longrightarrow>
        (\<forall>(r, v)\<in>set urlpatterns. v \<noteq> index \<longrightarrow> rx_search digit r path = None))"
proof (intro conjI impI)
  show "resolve digit urlpatterns [] = Some (index, [])"
    by (simp add: urlpatterns_def index_route)
next
  assume "\<exists>c\<in>set (takeWhile (\<lambda>c. c \<noteq> slash) path). \<not> digit c"
  then show "\<forall>(r, v)\<in>set urlpatterns. v \<noteq> index \<longrightarrow> rx_search digit r path = None"
    using slash by (simp add: urlpatterns_def draft_route_None del: rx_at.simps)
next
  assume h: "ds \<noteq> [] \<and> list_all digit ds"
  have u: "unicode (c # l) = of_char c # unicode l" for c l
    by (simp add: unicode_def)
  note dr = draft_route [where ds = ds and name = "''draft_id''" and digit = digit,
      OF conjunct1 [OF h] conjunct2 [OF h] _ slash]
  show "resolve digit urlpatterns (ds @ unicode ''/register'') =
        Some (register, [(''draft_id'', ds)])"
    using h slash by (simp add: urlpatterns_def index_route_None dr u)
  show "resolve digit urlpatterns (ds @ unicode ''/get_manager_updates'') =
        Some (get_manager_updates, [(''draft_id'', ds)])"
    using h slash by (simp add: urlpatterns_def index_route_None dr u)
  show "resolve digit urlpatterns (ds @ unicode ''/get_player_updates'') =
        Some (get_player_updates, [(''draft_id'', ds)])"
    using h slash by (simp add: urlpatterns_def index_route_None dr u)
  show "resolve digit urlpatterns (ds @ unicode ''/get_team'') =
        Some (get_team, [(''draft_id'', ds)])"
    using h slash by (simp add: urlpatterns_def index_route_None dr u)
  show "resolve digit urlpatterns (ds @ unicode ''/place_bid'') =
        Some (place_bid, [(''draft_id'', ds)])"
    using h slash by (simp add: urlpatterns_def index_route_None dr u)
  show "resolve digit urlpatterns (ds @ unicode ''/'') = Some (draft, [(''draft_id'', ds)])"
    using h slash by (simp add: urlpatterns_def index_route_None dr u)
qed

theorem urlpatterns_dispatch_witness:
  "resolve sample_digit urlpatterns (unicode ''42/register'') =
     Some (register, [(''draft_id'', unicode ''42'')]) \<and>
   resolve sample_digit urlpatterns ([1636, 1634] @ unicode ''/register'') =
     Some (register, [(''draft_id'', [1636, 1634])]) \<and>
   resolve sample_digit urlpatterns (unicode ''42/'') =
     Some (draft, [(''draft_id'', unicode ''42'')]) \<and>
   resolve sample_digit urlpatterns [] = Some (index, []) \<and>
   rx_search sample_digit [Bol, Digits ''draft_id'', Lit ''/get_team'', Eol]
     (unicode ''4x2/get_team'') = None"
  using
    urlpatterns_dispatch [where digit = sample_digit and ds = "unicode ''42''"
      and path = "unicode ''4x2/get_team''"]
    urlpatterns_dispatch [where digit = sample_digit and ds = "[1636, 1634]"
      and path = "unicode ''4x2/get_team''"]
  by (simp add: sample_digit_def unicode_def urlpatterns_def)

end
